theory Spec2Isabelle
  imports Complex_Main
begin

section \<open>The shopping list of src/App.tsx\<close>

text \<open>
  The component \<^verbatim>\<open>App\<close> keeps six pieces of state (\<^verbatim>\<open>useState\<close>) and changes them
  through the handlers \<^verbatim>\<open>addItem\<close>, \<^verbatim>\<open>archiveItem\<close>, \<^verbatim>\<open>startEditing\<close>,
  \<^verbatim>\<open>saveEdit\<close>, \<^verbatim>\<open>cancelEdit\<close> and the \<^verbatim>\<open>onChange\<close> handlers of the two forms.
  Each handler is modelled as a function from the state before the event to the state
  after it.

  Numbers. \<^verbatim>\<open>quantidade\<close> and \<^verbatim>\<open>preco\<close> are JavaScript numbers; they are modelled as
  exact rationals, so the rounding of IEEE doubles and the values NaN and Infinity are
  outside the model. An id is what \<^verbatim>\<open>Date.now()\<close> returned, a whole number of
  milliseconds, modelled as \<open>int\<close>.

  Strings are \<open>string\<close>; the empty string is the only falsy one (\<^verbatim>\<open>!newItem.nome\<close>).
\<close>

subsection \<open>Data\<close>

text \<open>
  \<^verbatim>\<open>Omit<Item, 'id'>\<close> is the record \<open>new_item\<close>; \<^verbatim>\<open>Item\<close> extends it with the id
  (the field is called \<open>item_id\<close>, since \<open>id\<close> is the identity function of HOL).
\<close>

record new_item =
  nome :: string
  quantidade :: rat
  preco :: rat
  categoria :: string
  sugeridoPor :: string

record item = new_item +
  item_id :: int

text \<open>
  The three messages that \<^verbatim>\<open>showAlert\<close> is called with (accents dropped here):
  \<^item> \<open>PreenchaNomePreco\<close>: 'Por favor, preencha o nome e o preco do item.' (\<^verbatim>\<open>addItem\<close>,
    the validation error);
  \<^item> \<open>ItemJaExiste\<close>: 'Este item ja existe na lista!' (\<^verbatim>\<open>addItem\<close>, the duplicate error);
  \<^item> \<open>OutroItemComEsteNome\<close>: 'Ja existe outro item com este nome!' (\<^verbatim>\<open>saveEdit\<close>, the
    duplicate error).
\<close>

datatype message = PreenchaNomePreco | ItemJaExiste | OutroItemComEsteNome

record store =
  items :: "item list"
  archivedItems :: "item list"
  editingItem :: "item option"
  alert :: "message option"
  showArchived :: bool
  newItem :: new_item

text \<open>The initial value of the new-item form, also the value it is reset to.\<close>

definition newItem_default :: new_item where
  "newItem_default =
     \<lparr>nome = [], quantidade = 1, preco = 0, categoria = [], sugeridoPor = []\<rparr>"

text \<open>The initial values of the six \<^verbatim>\<open>useState\<close> calls.\<close>

definition initial :: store where
  "initial =
     \<lparr>items = [], archivedItems = [], editingItem = None, alert = None,
      showArchived = False, newItem = newItem_default\<rparr>"

subsection \<open>Case-insensitive comparison\<close>

text \<open>
  \<^verbatim>\<open>String.prototype.toLowerCase\<close>, on the letters A to Z; every other character is
  kept. The general theorems below never unfold this definition: they hold for
  whatever function maps a name to its lower-case form. Only the closed examples
  evaluate it, on ASCII names.
\<close>

definition lower_char :: "char \<Rightarrow> char" where
  "lower_char c =
     (case map_of (zip ''ABCDEFGHIJKLMNOPQRSTUVWXYZ'' ''abcdefghijklmnopqrstuvwxyz'') c of
        None \<Rightarrow> c
      | Some l \<Rightarrow> l)"

definition toLowerCase :: "string \<Rightarrow> string" where
  "toLowerCase s = map lower_char s"

subsection \<open>The handlers\<close>

text \<open>
  \<^verbatim>\<open>showAlert\<close> sets the alert; the timer it starts clears the alert three seconds later
  (\<open>alertTimeout\<close>, an event of its own).
\<close>

definition showAlert :: "message \<Rightarrow> store \<Rightarrow> store" where
  "showAlert m st = st\<lparr>alert := Some m\<rparr>"

definition alertTimeout :: "store \<Rightarrow> store" where
  "alertTimeout st = st\<lparr>alert := None\<rparr>"

text \<open>\<^verbatim>\<open>{ ...newItem, id: Date.now() }\<close>, with \<open>now\<close> the value of \<^verbatim>\<open>Date.now()\<close>.\<close>

definition with_id :: "new_item \<Rightarrow> int \<Rightarrow> item" where
  "with_id d now =
     \<lparr>nome = nome d, quantidade = quantidade d, preco = preco d,
      categoria = categoria d, sugeridoPor = sugeridoPor d, item_id = now\<rparr>"

text \<open>
  \<^verbatim>\<open>addItem\<close>. The result pairs the message of the early return taken, if any, with the
  state after the call. \<open>now\<close> is what \<^verbatim>\<open>Date.now()\<close> returns; it is read only on the
  last path.
\<close>

definition addItem :: "int \<Rightarrow> store \<Rightarrow> message option \<times> store" where
  "addItem now st =
     (if nome (newItem st) = [] \<or> preco (newItem st) \<le> 0
      then (Some PreenchaNomePreco, showAlert PreenchaNomePreco st)
      else if list_ex (\<lambda>i. toLowerCase (nome i) = toLowerCase (nome (newItem st))) (items st)
      then (Some ItemJaExiste, showAlert ItemJaExiste st)
      else (None,
            st\<lparr>items := items st @ [with_id (newItem st) now],
               newItem := newItem_default\<rparr>))"

text \<open>\<^verbatim>\<open>archiveItem\<close>: \<^verbatim>\<open>find\<close> returns the first item with the id, \<^verbatim>\<open>filter\<close> drops all of them.\<close>

definition archiveItem :: "int \<Rightarrow> store \<Rightarrow> store" where
  "archiveItem k st =
     (case find (\<lambda>i. item_id i = k) (items st) of
        Some it \<Rightarrow>
          st\<lparr>archivedItems := archivedItems st @ [it],
             items := filter (\<lambda>i. item_id i \<noteq> k) (items st)\<rparr>
      | None \<Rightarrow> st)"

definition startEditing :: "item \<Rightarrow> store \<Rightarrow> store" where
  "startEditing it st = st\<lparr>editingItem := Some it\<rparr>"

text \<open>\<^verbatim>\<open>saveEdit\<close>, with the message of its early return, if taken.\<close>

definition saveEdit :: "store \<Rightarrow> message option \<times> store" where
  "saveEdit st =
     (case editingItem st of
        None \<Rightarrow> (None, st)
      | Some e \<Rightarrow>
          if list_ex (\<lambda>i. item_id i \<noteq> item_id e \<and>
                           toLowerCase (nome i) = toLowerCase (nome e)) (items st)
          then (Some OutroItemComEsteNome, showAlert OutroItemComEsteNome st)
          else (None,
                st\<lparr>items := map (\<lambda>i. if item_id i = item_id e then e else i) (items st),
                   editingItem := None\<rparr>))"

definition cancelEdit :: "store \<Rightarrow> store" where
  "cancelEdit st = st\<lparr>editingItem := None\<rparr>"

text \<open>\<^verbatim>\<open>items.reduce((total, item) => total + (item.preco * item.quantidade), 0)\<close>\<close>

definition calculateTotal :: "store \<Rightarrow> rat" where
  "calculateTotal st =
     foldl (\<lambda>total i. total + preco i * quantidade i) 0 (items st)"

subsection \<open>The form fields\<close>

text \<open>
  The \<^verbatim>\<open>onChange\<close> handlers of both forms replace one field of the draft; the quantity is
  \<^verbatim>\<open>Math.max(1, Number(e.target.value))\<close>, the price is taken as typed. The id of the edit
  draft has no input. The fields of the edit form exist only while \<^verbatim>\<open>editingItem\<close> is set.
\<close>

datatype field =
  Nome string | Quantidade rat | Preco rat | Categoria string | SugeridoPor string

fun setField :: "field \<Rightarrow> 'a new_item_scheme \<Rightarrow> 'a new_item_scheme" where
  "setField (Nome v) d = d\<lparr>nome := v\<rparr>"
| "setField (Quantidade v) d = d\<lparr>quantidade := max 1 v\<rparr>"
| "setField (Preco v) d = d\<lparr>preco := v\<rparr>"
| "setField (Categoria v) d = d\<lparr>categoria := v\<rparr>"
| "setField (SugeridoPor v) d = d\<lparr>sugeridoPor := v\<rparr>"

definition changeNew :: "field \<Rightarrow> store \<Rightarrow> store" where
  "changeNew f st = st\<lparr>newItem := setField f (newItem st)\<rparr>"

definition changeEdit :: "field \<Rightarrow> store \<Rightarrow> store" where
  "changeEdit f st =
     (case editingItem st of
        None \<Rightarrow> st
      | Some e \<Rightarrow> st\<lparr>editingItem := Some (setField f e)\<rparr>)"

definition toggleArchived :: "store \<Rightarrow> store" where
  "toggleArchived st = st\<lparr>showArchived := \<not> showArchived st\<rparr>"

subsection \<open>Runs\<close>

text \<open>
  Everything that can happen to the state: an event of the user interface or the timer
  of the alert. \<open>Add now\<close> carries the clock value that \<^verbatim>\<open>addItem\<close> reads.
\<close>

datatype event =
    ChangeNew field
  | Add int
  | Archive int
  | StartEditing item
  | ChangeEdit field
  | SaveEdit
  | CancelEdit
  | ToggleArchived
  | AlertTimeout

fun step :: "event \<Rightarrow> store \<Rightarrow> store" where
  "step (ChangeNew f) st = changeNew f st"
| "step (Add now) st = snd (addItem now st)"
| "step (Archive k) st = archiveItem k st"
| "step (StartEditing it) st = startEditing it st"
| "step (ChangeEdit f) st = changeEdit f st"
| "step SaveEdit st = snd (saveEdit st)"
| "step CancelEdit st = cancelEdit st"
| "step ToggleArchived st = toggleArchived st"
| "step AlertTimeout st = alertTimeout st"

fun run :: "event list \<Rightarrow> store \<Rightarrow> store" where
  "run [] st = st"
| "run (e # es) st = run es (step e st)"

subsection \<open>Names and ids along a run\<close>

text \<open>No two items of a list have names that are equal once both are lower-cased.\<close>

definition names_unique :: "item list \<Rightarrow> bool" where
  "names_unique xs = distinct (map (\<lambda>i. toLowerCase (nome i)) xs)"

text \<open>The ids of all the items of the store, the active ones first.\<close>

definition all_ids :: "store \<Rightarrow> int list" where
  "all_ids st = map item_id (items st @ archivedItems st)"

text \<open>
  The clock value an event reads: \<^verbatim>\<open>Date.now()\<close> is called by \<^verbatim>\<open>addItem\<close> only, and only
  when both checks have passed.
\<close>

definition reads_clock :: "event \<Rightarrow> store \<Rightarrow> int option" where
  "reads_clock e st =
     (case e of
        Add now \<Rightarrow> if fst (addItem now st) = None then Some now else None
      | _ \<Rightarrow> None)"

text \<open>
  Two assumptions on the clock along a run from \<open>st\<close>. \<open>clock_fresh\<close>: every value read
  differs from the ids of the items active at that moment. \<open>clock_rising\<close>: every value
  read is greater than every id in the store at that moment, as when at least one
  millisecond passes between two additions and the clock is never set back.
\<close>

fun clock_fresh :: "event list \<Rightarrow> store \<Rightarrow> bool" where
  "clock_fresh [] st = True"
| "clock_fresh (e # es) st =
     ((case reads_clock e st of
         Some now \<Rightarrow> now \<notin> item_id ` set (items st)
       | None \<Rightarrow> True)
      \<and> clock_fresh es (step e st))"

fun clock_rising :: "event list \<Rightarrow> store \<Rightarrow> bool" where
  "clock_rising [] st = True"
| "clock_rising (e # es) st =
     ((case reads_clock e st of
         Some now \<Rightarrow> list_all (\<lambda>k. k < now) (all_ids st)
       | None \<Rightarrow> True)
      \<and> clock_rising es (step e st))"

subsection \<open>Example runs\<close>

text \<open>Typing a name, a quantity and a price into the new-item form.\<close>

definition fill :: "string \<Rightarrow> rat \<Rightarrow> rat \<Rightarrow> event list" where
  "fill n q p = [ChangeNew (Nome n), ChangeNew (Quantidade q), ChangeNew (Preco p)]"

definition milk :: item where
  "milk = \<lparr>nome = ''Milk'', quantidade = 2, preco = 7 / 2, categoria = [],
           sugeridoPor = [], item_id = 1000\<rparr>"

definition bread :: "int \<Rightarrow> item" where
  "bread k = \<lparr>nome = ''Bread'', quantidade = 1, preco = 5, categoria = [],
              sugeridoPor = [], item_id = k\<rparr>"

text \<open>Milk is added when the clock shows 1000, bread when it shows \<open>k\<close>.\<close>

definition milk_and_bread :: "int \<Rightarrow> event list" where
  "milk_and_bread k = fill ''Milk'' 2 (7 / 2) @ [Add 1000] @ fill ''Bread'' 1 5 @ [Add k]"

text \<open>Milk is in the list and the form holds the same name in lower case.\<close>

definition milk_twice :: "event list" where
  "milk_twice = fill ''Milk'' 2 (7 / 2) @ [Add 1000] @ fill ''milk'' 1 1"


text \<open>Bread is added and archived, and the form holds bread again.\<close>

definition bread_archived :: "event list" where
  "bread_archived = fill ''Bread'' 1 5 @ [Add 1000, Archive 1000] @ fill ''Bread'' 1 5"

text \<open>Bread is added and archived twice, at different times.\<close>

definition bread_twice :: "event list" where
  "bread_twice = bread_archived @ [Add 2000, Archive 2000]"

text \<open>Both adds read the same clock value; then the edit of the first item is opened.\<close>

definition same_clock :: "event list" where
  "same_clock = milk_and_bread 1000 @ [StartEditing milk]"

text \<open>Three edit sessions on the bread of \<open>milk_and_bread 2000\<close>, each before its save.\<close>

definition editing_collides :: "event list" where
  "editing_collides =
     milk_and_bread 2000 @ [StartEditing (bread 2000), ChangeEdit (Nome ''MILK'')]"

definition editing_price :: "event list" where
  "editing_price =
     milk_and_bread 2000 @
     [StartEditing (bread 2000), ChangeEdit (Nome ''Rye''), ChangeEdit (Preco (- 1))]"

definition editing_archived :: "event list" where
  "editing_archived =
     milk_and_bread 2000 @
     [StartEditing (bread 2000), Archive 2000, ChangeEdit (Nome ''Rye'')]"

section \<open>Auxiliary facts\<close>

subsection \<open>Lists\<close>

lemma foldl_total:
  "foldl (\<lambda>total i. total + preco i * quantidade i) a xs =
   a + (\<Sum>i\<leftarrow>xs. preco i * quantidade i)"
  by (induction xs arbitrary: a) (simp_all add: add.assoc)

lemma find_Some_props: "find P xs = Some x \<Longrightarrow> x \<in> set xs \<and> P x"
  by (induction xs) (auto split: if_splits)

lemma find_None_iff_ids:
  "find (\<lambda>i. item_id i = k) xs = None \<longleftrightarrow> k \<notin> item_id ` set xs"
  by (induction xs) auto

text \<open>With distinct keys, dropping every element with key \<open>k\<close> drops the first one only.\<close>

lemma filter_remove1_first:
  "find (\<lambda>i. g i = k) xs = Some x \<Longrightarrow> distinct (map g xs) \<Longrightarrow>
   filter (\<lambda>i. g i \<noteq> k) xs = remove1 x xs"
proof (induction xs)
  case Nil
  then show ?case by simp
next
  case (Cons y ys)
  show ?case
  proof (cases "g y = k")
    case True
    with Cons.prems have "x = y" by simp
    from Cons.prems have "g y \<notin> g ` set ys" by simp
    with True have "\<forall>i\<in>set ys. g i \<noteq> k" by (metis imageI)
    with \<open>x = y\<close> show ?thesis using True by simp
  next
    case False
    with Cons.prems have "find (\<lambda>i. g i = k) ys = Some x" and "distinct (map g ys)" by auto
    then have "filter (\<lambda>i. g i \<noteq> k) ys = remove1 x ys" by (rule Cons.IH)
    moreover from \<open>find (\<lambda>i. g i = k) ys = Some x\<close> have "g x = k"
      by (auto dest: find_Some_props)
    ultimately show ?thesis using False by auto
  qed
qed

text \<open>With distinct keys, the element found by its key is the element that has it.\<close>

lemma find_by_distinct_key:
  "distinct (map g xs) \<Longrightarrow> x \<in> set xs \<Longrightarrow> find (\<lambda>i. g i = g x) xs = Some x"
proof (induction xs)
  case Nil
  then show ?case by simp
next
  case (Cons y ys)
  show ?case
  proof (cases "x = y")
    case True
    then show ?thesis by simp
  next
    case False
    with Cons.prems have "x \<in> set ys" and "g y \<notin> g ` set ys" and "distinct (map g ys)"
      by simp_all
    then have "g y \<noteq> g x" and "find (\<lambda>i. g i = g x) ys = Some x"
      using Cons.IH by (metis imageI, simp)
    then show ?thesis by simp
  qed
qed

text \<open>The \<^verbatim>\<open>map\<close> of \<^verbatim>\<open>saveEdit\<close> keeps every key where it is.\<close>

lemma map_replace_ids: "map g (map (\<lambda>i. if g i = g e then e else i) xs) = map g xs"
  by (induction xs) auto

text \<open>
  Replacing by key keeps the values of \<open>f\<close> distinct when the keys are distinct and the
  new element clashes with no element of another key.
\<close>

lemma map_replace_distinct:
  assumes "distinct (map f xs)" and "distinct (map g xs)"
    and "\<forall>i\<in>set xs. g i \<noteq> g e \<longrightarrow> f i \<noteq> f e"
  shows "distinct (map f (map (\<lambda>i. if g i = g e then e else i) xs))"
  using assms
proof (induction xs)
  case Nil
  then show ?case by simp
next
  case (Cons x xs)
  then have IH: "distinct (map f (map (\<lambda>i. if g i = g e then e else i) xs))"
    by simp
  show ?case
  proof (cases "g x = g e")
    case True
    with Cons.prems(2) have "\<forall>i\<in>set xs. g i \<noteq> g e"
      by (metis distinct.simps(2) imageI list.simps(9) set_map)
    with Cons.prems(3) have "\<forall>i\<in>set xs. f i \<noteq> f e"
      and "map (\<lambda>i. if g i = g e then e else i) xs = xs"
      by (simp_all add: map_idI)
    with True Cons.prems(1) show ?thesis by auto
  next
    case False
    with Cons.prems(3) have "f x \<noteq> f e" by simp
    moreover from Cons.prems(1) have "\<forall>i\<in>set xs. f x \<noteq> f i" by auto
    ultimately have "\<forall>j\<in>set xs. f x \<noteq> f (if g j = g e then e else j)"
      by simp
    with IH False show ?thesis by (simp add: image_iff)
  qed
qed

subsection \<open>Archiving\<close>

lemma archiveItem_absent: "k \<notin> item_id ` set (items st) \<Longrightarrow> archiveItem k st = st"
  by (simp add: archiveItem_def find_None_iff_ids [THEN iffD2])

lemma archiveItem_no_k: "k \<notin> item_id ` set (items (archiveItem k st))"
  by (auto simp add: archiveItem_def find_None_iff_ids split: option.splits)

subsection \<open>One event\<close>

text \<open>How the ids of the two lists change in one step.\<close>

lemma step_active_ids:
  "map item_id (items (step e st)) =
     (case e of
        Archive k \<Rightarrow> filter (\<lambda>j. j \<noteq> k) (map item_id (items st))
      | _ \<Rightarrow> map item_id (items st) @
             (case reads_clock e st of Some now \<Rightarrow> [now] | None \<Rightarrow> []))"
proof (cases e)
  case (Add now)
  then show ?thesis
    by (simp add: addItem_def showAlert_def reads_clock_def with_id_def)
next
  case (Archive k)
  show ?thesis
  proof (cases "find (\<lambda>i. item_id i = k) (items st)")
    case None
    then have "k \<notin> item_id ` set (items st)" by (simp add: find_None_iff_ids)
    then have "filter (\<lambda>j. j \<noteq> k) (map item_id (items st)) = map item_id (items st)"
      by (intro filter_True) auto
    with None Archive show ?thesis by (simp add: archiveItem_def)
  next
    case (Some it)
    with Archive show ?thesis by (simp add: archiveItem_def filter_map o_def)
  qed
next
  case SaveEdit
  then show ?thesis
    by (simp add: saveEdit_def showAlert_def reads_clock_def map_replace_ids
          split: option.splits)
qed (simp_all add: changeNew_def startEditing_def changeEdit_def cancelEdit_def
       toggleArchived_def alertTimeout_def reads_clock_def split: option.splits)

lemma step_archived_ids:
  "map item_id (archivedItems (step e st)) =
     map item_id (archivedItems st) @
     (case e of
        Archive k \<Rightarrow> if k \<in> item_id ` set (items st) then [k] else []
      | _ \<Rightarrow> [])"
proof (cases e)
  case (Archive k)
  show ?thesis
  proof (cases "find (\<lambda>i. item_id i = k) (items st)")
    case None
    then have "k \<notin> item_id ` set (items st)" by (simp add: find_None_iff_ids)
    with None Archive show ?thesis by (simp add: archiveItem_def)
  next
    case (Some it)
    then have "it \<in> set (items st)" and "item_id it = k"
      by (auto dest: find_Some_props)
    then have "k \<in> item_id ` set (items st)" by auto
    with Some Archive \<open>item_id it = k\<close> show ?thesis by (simp add: archiveItem_def)
  qed
qed (simp_all add: addItem_def showAlert_def saveEdit_def changeNew_def startEditing_def
       changeEdit_def cancelEdit_def toggleArchived_def alertTimeout_def
       split: option.splits)

text \<open>
  A step keeps the names and the ids of the active list distinct, when the clock value
  it reads, if any, is not the id of an active item.
\<close>

lemma step_names:
  assumes "names_unique (items st)" and "distinct (map item_id (items st))"
    and "case reads_clock e st of
           Some now \<Rightarrow> now \<notin> item_id ` set (items st) | None \<Rightarrow> True"
  shows "names_unique (items (step e st)) \<and> distinct (map item_id (items (step e st)))"
proof (cases e)
  case (Add now)
  with assms show ?thesis
    by (auto simp add: addItem_def showAlert_def names_unique_def reads_clock_def
          list_ex_iff with_id_def)
next
  case (Archive k)
  with assms(1,2) show ?thesis
    by (simp add: archiveItem_def names_unique_def distinct_map_filter split: option.splits)
next
  case SaveEdit
  show ?thesis
  proof (cases "editingItem st")
    case None
    with SaveEdit assms(1,2) show ?thesis by (simp add: saveEdit_def)
  next
    case (Some d)
    show ?thesis
    proof (cases "list_ex (\<lambda>i. item_id i \<noteq> item_id d \<and>
                     toLowerCase (nome i) = toLowerCase (nome d)) (items st)")
      case True
      with SaveEdit Some assms(1,2) show ?thesis by (simp add: saveEdit_def showAlert_def)
    next
      case False
      then have free: "\<forall>i\<in>set (items st). item_id i \<noteq> item_id d \<longrightarrow>
          toLowerCase (nome i) \<noteq> toLowerCase (nome d)"
        by (auto simp add: list_ex_iff)
      have its: "items (step e st) =
          map (\<lambda>i. if item_id i = item_id d then d else i) (items st)"
        using SaveEdit Some False by (simp add: saveEdit_def)
      have names: "distinct (map (\<lambda>i. toLowerCase (nome i))
               (map (\<lambda>i. if item_id i = item_id d then d else i) (items st)))"
        using assms(1,2) free unfolding names_unique_def by (rule map_replace_distinct)
      show ?thesis
        unfolding its names_unique_def map_replace_ids using names assms(2) by blast
    qed
  qed
qed (use assms(1,2) in \<open>simp_all add: changeNew_def startEditing_def changeEdit_def
       cancelEdit_def toggleArchived_def alertTimeout_def split: option.splits\<close>)

text \<open>
  A step keeps the ids of the store distinct and those of the active list increasing,
  when the clock value it reads, if any, is greater than every id of the store.
\<close>

lemma step_ids:
  assumes "distinct (all_ids st)" and "sorted_wrt (<) (map item_id (items st))"
    and "case reads_clock e st of
           Some now \<Rightarrow> list_all (\<lambda>k. k < now) (all_ids st) | None \<Rightarrow> True"
  shows "distinct (all_ids (step e st)) \<and> sorted_wrt (<) (map item_id (items (step e st)))"
proof -
  have ids: "all_ids s = map item_id (items s) @ map item_id (archivedItems s)" for s
    by (simp add: all_ids_def)
  show ?thesis
  proof (cases e)
    case (Archive k)
    with assms(1,2) show ?thesis
      unfolding ids step_active_ids step_archived_ids
      by (auto simp add: sorted_wrt_filter)
  next
    case (Add now)
    show ?thesis
    proof (cases "reads_clock e st")
      case None
      with Add assms(1,2) show ?thesis
        unfolding ids step_active_ids step_archived_ids by simp
    next
      case (Some t)
      with assms(3) have "\<forall>k\<in>set (all_ids st). k < t" by (simp add: list_all_iff)
      then have "\<forall>k\<in>set (map item_id (items st)). k < t"
        and "t \<notin> set (map item_id (items st))"
        and "t \<notin> set (map item_id (archivedItems st))"
        unfolding ids by auto
      with Add Some assms(1,2) show ?thesis
        unfolding ids step_active_ids step_archived_ids
        by (simp add: sorted_wrt_append)
    qed
  qed (use assms(1,2) in \<open>unfold ids step_active_ids step_archived_ids,
         simp_all add: reads_clock_def\<close>)
qed

subsection \<open>Runs\<close>

lemma run_append: "run (es @ fs) st = run fs (run es st)"
  by (induction es arbitrary: st) simp_all

lemma run_names:
  "names_unique (items st) \<Longrightarrow> distinct (map item_id (items st)) \<Longrightarrow> clock_fresh es st \<Longrightarrow>
   names_unique (items (run es st)) \<and> distinct (map item_id (items (run es st)))"
proof (induction es arbitrary: st)
  case Nil
  then show ?case by simp
next
  case (Cons e es)
  from Cons.prems
  have "names_unique (items (step e st)) \<and> distinct (map item_id (items (step e st)))"
    by (intro step_names) simp_all
  moreover from Cons.prems have "clock_fresh es (step e st)" by simp
  ultimately show ?case using Cons.IH [of "step e st"] by simp
qed

lemma run_ids:
  "distinct (all_ids st) \<Longrightarrow> sorted_wrt (<) (map item_id (items st)) \<Longrightarrow>
   clock_rising es st \<Longrightarrow>
   distinct (all_ids (run es st)) \<and> sorted_wrt (<) (map item_id (items (run es st)))"
proof (induction es arbitrary: st)
  case Nil
  then show ?case by simp
next
  case (Cons e es)
  from Cons.prems
  have "distinct (all_ids (step e st)) \<and> sorted_wrt (<) (map item_id (items (step e st)))"
    by (intro step_ids) simp_all
  moreover from Cons.prems have "clock_rising es (step e st)" by simp
  ultimately show ?case using Cons.IH [of "step e st"] by simp
qed

subsection \<open>The example runs, evaluated\<close>

lemmas handler_defs =
  changeNew_def addItem_def showAlert_def with_id_def newItem_default_def archiveItem_def
  startEditing_def saveEdit_def cancelEdit_def changeEdit_def toggleArchived_def
  alertTimeout_def

lemma lower_Milk: "toLowerCase ''Milk'' = ''milk''"
  by (simp add: toLowerCase_def lower_char_def)

lemma lower_milk: "toLowerCase ''milk'' = ''milk''"
  by (simp add: toLowerCase_def lower_char_def)

lemma lower_MILK: "toLowerCase ''MILK'' = ''milk''"
  by (simp add: toLowerCase_def lower_char_def)

lemma lower_Bread: "toLowerCase ''Bread'' = ''bread''"
  by (simp add: toLowerCase_def lower_char_def)

lemma lower_Rye: "toLowerCase ''Rye'' = ''rye''"
  by (simp add: toLowerCase_def lower_char_def)

lemmas lower_examples = lower_Milk lower_milk lower_MILK lower_Bread lower_Rye

lemma run_milk_and_bread:
  "run (milk_and_bread k) initial =
     \<lparr>items = [milk, bread k], archivedItems = [], editingItem = None, alert = None,
      showArchived = False, newItem = newItem_default\<rparr>"
  by (simp add: milk_and_bread_def fill_def initial_def handler_defs milk_def bread_def
        lower_examples)

lemma run_milk_twice:
  "run milk_twice initial =
     \<lparr>items = [milk], archivedItems = [], editingItem = None, alert = None,
      showArchived = False,
      newItem = \<lparr>nome = ''milk'', quantidade = 1, preco = 1, categoria = [],
                 sugeridoPor = []\<rparr>\<rparr>"
  by (simp add: milk_twice_def fill_def initial_def handler_defs milk_def lower_examples)


lemma run_bread_archived:
  "run bread_archived initial =
     \<lparr>items = [], archivedItems = [bread 1000], editingItem = None, alert = None,
      showArchived = False,
      newItem = \<lparr>nome = ''Bread'', quantidade = 1, preco = 5, categoria = [],
                 sugeridoPor = []\<rparr>\<rparr>"
  by (simp add: bread_archived_def fill_def initial_def handler_defs bread_def lower_examples)

lemma run_bread_twice:
  "run bread_twice initial =
     \<lparr>items = [], archivedItems = [bread 1000, bread 2000], editingItem = None,
      alert = None, showArchived = False, newItem = newItem_default\<rparr>"
  by (simp add: bread_twice_def run_append run_bread_archived handler_defs bread_def
        lower_examples)

lemma run_same_clock:
  "run same_clock initial =
     \<lparr>items = [milk, bread 1000], archivedItems = [], editingItem = Some milk,
      alert = None, showArchived = False, newItem = newItem_default\<rparr>"
  by (simp add: same_clock_def run_append run_milk_and_bread startEditing_def)

lemma run_editing_collides:
  "run editing_collides initial =
     \<lparr>items = [milk, bread 2000], archivedItems = [],
      editingItem = Some ((bread 2000)\<lparr>nome := ''MILK''\<rparr>),
      alert = None, showArchived = False, newItem = newItem_default\<rparr>"
  by (simp add: editing_collides_def run_append run_milk_and_bread startEditing_def
        changeEdit_def)

lemma run_editing_price:
  "run editing_price initial =
     \<lparr>items = [milk, bread 2000], archivedItems = [],
      editingItem = Some ((bread 2000)\<lparr>nome := ''Rye'', preco := - 1\<rparr>),
      alert = None, showArchived = False, newItem = newItem_default\<rparr>"
  by (simp add: editing_price_def run_append run_milk_and_bread startEditing_def
        changeEdit_def)

lemma run_editing_archived:
  "run editing_archived initial =
     \<lparr>items = [milk], archivedItems = [bread 2000],
      editingItem = Some ((bread 2000)\<lparr>nome := ''Rye''\<rparr>),
      alert = None, showArchived = False, newItem = newItem_default\<rparr>"
  by (simp add: editing_archived_def run_append run_milk_and_bread startEditing_def
        changeEdit_def archiveItem_def milk_def bread_def)

lemma clock_fresh_bread_twice: "clock_fresh bread_twice initial"
  by (simp add: bread_twice_def bread_archived_def fill_def initial_def handler_defs
        reads_clock_def lower_examples)

lemma clock_fresh_milk_and_bread: "clock_fresh (milk_and_bread 2000) initial"
  by (simp add: milk_and_bread_def fill_def initial_def handler_defs reads_clock_def
        lower_examples)

lemma clock_rising_milk_and_bread: "clock_rising (milk_and_bread 2000) initial"
  by (simp add: milk_and_bread_def fill_def initial_def handler_defs reads_clock_def
        all_ids_def lower_examples)

section \<open>The claims\<close>

subsection \<open>C1: names in the active list\<close>

text \<open>
  Claim C1, as stated, fails. Milk and bread are added while the clock shows the same
  millisecond, so both get the id 1000, and the edit of the milk is opened. The names in
  the active list differ; \<^verbatim>\<open>saveEdit\<close> then writes the draft over both items, since both
  have its id, and the active list holds milk twice.
\<close>

theorem names_clash_after_saveEdit:
  "names_unique (items (run same_clock initial))
   \<and> \<not> names_unique (items (step SaveEdit (run same_clock initial)))"
  by (simp add: run_same_clock saveEdit_def names_unique_def milk_def bread_def
        lower_examples)

text \<open>
  Claim C1, amended. Along every run from the initial store in which each clock value
  read by \<^verbatim>\<open>addItem\<close> differs from the ids of the items active at that moment, no two
  items of the active list have names that are equal up to case, whatever the events
  (form input, add, archive, begin, save or cancel an edit, view toggle, alert timeout).
  The archived list is not bound by this: archiving bread twice, at different clock
  values, leaves two items named Bread in it.
\<close>

theorem names_unique_run:
  "(clock_fresh es initial \<longrightarrow> names_unique (items (run es initial)))
   \<and> (\<exists>fs. clock_fresh fs initial \<and> \<not> names_unique (archivedItems (run fs initial)))"
proof
  show "clock_fresh es initial \<longrightarrow> names_unique (items (run es initial))"
  proof
    assume "clock_fresh es initial"
    moreover have "names_unique (items initial)" and "distinct (map item_id (items initial))"
      by (simp_all add: initial_def names_unique_def)
    ultimately show "names_unique (items (run es initial))"
      using run_names [of initial es] by simp
  qed
next
  have "\<not> names_unique (archivedItems (run bread_twice initial))"
    by (simp add: run_bread_twice names_unique_def bread_def)
  with clock_fresh_bread_twice
  show "\<exists>fs. clock_fresh fs initial \<and> \<not> names_unique (archivedItems (run fs initial))"
    by blast
qed

theorem names_unique_run_witness:
  "clock_fresh (milk_and_bread 2000) initial
   \<and> names_unique (items (run (milk_and_bread 2000) initial))
   \<and> items (run (milk_and_bread 2000) initial) = [milk, bread 2000]"
  using names_unique_run [of "milk_and_bread 2000"] clock_fresh_milk_and_bread
  by (simp add: run_milk_and_bread)

subsection \<open>C2: what addItem rejects\<close>

text \<open>
  Claim C2. \<^verbatim>\<open>addItem\<close> returns early exactly when the name of the draft is empty, or its
  price is at most 0, or some item of the active list has the same name up to case. The
  first two give the validation message, and are checked first; the third gives the
  duplicate message. After an early return the active list, the archived list, the draft
  and the edit session are as before and the alert holds the message. The archived list
  has no part in the decision.
\<close>

theorem addItem_rejects:
  "(fst (addItem now st) \<noteq> None \<longleftrightarrow>
      nome (newItem st) = [] \<or> preco (newItem st) \<le> 0
      \<or> (\<exists>i\<in>set (items st). toLowerCase (nome i) = toLowerCase (nome (newItem st))))
   \<and> (nome (newItem st) = [] \<or> preco (newItem st) \<le> 0 \<longrightarrow>
        fst (addItem now st) = Some PreenchaNomePreco)
   \<and> (nome (newItem st) \<noteq> [] \<and> 0 < preco (newItem st)
        \<and> (\<exists>i\<in>set (items st). toLowerCase (nome i) = toLowerCase (nome (newItem st))) \<longrightarrow>
        fst (addItem now st) = Some ItemJaExiste)
   \<and> (fst (addItem now st) \<noteq> None \<longrightarrow>
        items (snd (addItem now st)) = items st
        \<and> archivedItems (snd (addItem now st)) = archivedItems st
        \<and> newItem (snd (addItem now st)) = newItem st
        \<and> editingItem (snd (addItem now st)) = editingItem st
        \<and> alert (snd (addItem now st)) = fst (addItem now st))
   \<and> fst (addItem now (st\<lparr>archivedItems := a\<rparr>)) = fst (addItem now st)"
  by (simp add: addItem_def showAlert_def list_ex_iff not_le)

theorem addItem_rejects_witness:
  "nome (newItem (run milk_twice initial)) \<noteq> []
   \<and> 0 < preco (newItem (run milk_twice initial))
   \<and> (\<exists>i\<in>set (items (run milk_twice initial)).
         toLowerCase (nome i) = toLowerCase (nome (newItem (run milk_twice initial))))
   \<and> fst (addItem 2000 (run milk_twice initial)) = Some ItemJaExiste
   \<and> items (snd (addItem 2000 (run milk_twice initial))) = [milk]
   \<and> newItem (snd (addItem 2000 (run milk_twice initial))) = newItem (run milk_twice initial)
   \<and> alert (snd (addItem 2000 (run milk_twice initial))) = Some ItemJaExiste"
  using addItem_rejects [of 2000 "run milk_twice initial" "[]"]
  by (simp add: run_milk_twice milk_def lower_examples)

subsection \<open>C3: what addItem appends\<close>




subsection \<open>C4: archiving\<close>

text \<open>
  Claim C4, as stated, fails where two active items share an id. Milk and bread were
  added at the same clock value 1000. Bread is an active item with the id 1000, yet
  \<^verbatim>\<open>archiveItem\<close> with that id appends the milk, which \<^verbatim>\<open>find\<close> meets first, and
  \<^verbatim>\<open>filter\<close> drops both: the bread is in neither list afterwards.
\<close>

theorem archiveItem_wrong_item:
  "bread 1000 \<in> set (items (run (milk_and_bread 1000) initial))
   \<and> item_id (bread 1000) = 1000
   \<and> archivedItems (archiveItem 1000 (run (milk_and_bread 1000) initial)) = [milk]
   \<and> items (archiveItem 1000 (run (milk_and_bread 1000) initial)) = []
   \<and> bread 1000 \<notin> set (archivedItems (archiveItem 1000 (run (milk_and_bread 1000) initial)))"
  by (simp add: run_milk_and_bread archiveItem_def milk_def bread_def)

text \<open>
  Claim C4, amended. For every id \<open>k\<close>: when the ids of the active list are distinct and
  an item with the id \<open>k\<close> is in the active list, \<^verbatim>\<open>archiveItem\<close> appends that exact
  item, unchanged, to the end of the archived list and removes it, and it alone, from the
  active list. When no active item has the id, the store is returned as it is. In every
  case no active item has the id afterwards, so a second call with the same id changes
  nothing and archives nothing twice; no alert is raised, and the edit session and the
  new-item draft are kept.
\<close>

theorem archiveItem_moves:
  "(distinct (map item_id (items st)) \<longrightarrow>
      (\<forall>it\<in>set (items st). item_id it = k \<longrightarrow>
         archivedItems (archiveItem k st) = archivedItems st @ [it]
         \<and> items (archiveItem k st) = remove1 it (items st)
         \<and> items (archiveItem k st) = filter (\<lambda>i. i \<noteq> it) (items st)
         \<and> it \<notin> set (items (archiveItem k st))))
   \<and> (k \<notin> item_id ` set (items st) \<longrightarrow> archiveItem k st = st)
   \<and> k \<notin> item_id ` set (items (archiveItem k st))
   \<and> archiveItem k (archiveItem k st) = archiveItem k st
   \<and> alert (archiveItem k st) = alert st
   \<and> editingItem (archiveItem k st) = editingItem st
   \<and> newItem (archiveItem k st) = newItem st"
proof -
  have moved: "archivedItems (archiveItem k st) = archivedItems st @ [it]
      \<and> items (archiveItem k st) = remove1 it (items st)
      \<and> items (archiveItem k st) = filter (\<lambda>i. i \<noteq> it) (items st)
      \<and> it \<notin> set (items (archiveItem k st))"
    if d: "distinct (map item_id (items st))" and "it \<in> set (items st)" and "item_id it = k"
    for it
  proof -
    from that have found: "find (\<lambda>i. item_id i = k) (items st) = Some it"
      using find_by_distinct_key [of item_id "items st" it] by simp
    then have its: "items (archiveItem k st) = remove1 it (items st)"
      and arch: "archivedItems (archiveItem k st) = archivedItems st @ [it]"
      using d by (simp_all add: archiveItem_def filter_remove1_first)
    from d have "distinct (items st)" by (simp add: distinct_map)
    then have "remove1 it (items st) = filter (\<lambda>i. i \<noteq> it) (items st)"
      and "it \<notin> set (remove1 it (items st))"
      by (auto simp add: distinct_remove1_removeAll removeAll_filter_not_eq
            intro: filter_cong)
    with its arch show ?thesis by auto
  qed
  have again: "archiveItem k (archiveItem k st) = archiveItem k st"
    by (rule archiveItem_absent) (rule archiveItem_no_k)
  have frame: "alert (archiveItem k st) = alert st
      \<and> editingItem (archiveItem k st) = editingItem st
      \<and> newItem (archiveItem k st) = newItem st"
    by (simp add: archiveItem_def split: option.splits)
  from moved again frame archiveItem_absent [of k st] archiveItem_no_k [of k st]
  show ?thesis by blast
qed

theorem archiveItem_moves_witness:
  "distinct (map item_id (items (run (milk_and_bread 2000) initial)))
   \<and> bread 2000 \<in> set (items (run (milk_and_bread 2000) initial))
   \<and> item_id (bread 2000) = 2000
   \<and> archivedItems (archiveItem 2000 (run (milk_and_bread 2000) initial)) = [bread 2000]
   \<and> items (archiveItem 2000 (run (milk_and_bread 2000) initial)) = [milk]
   \<and> archiveItem 2000 (archiveItem 2000 (run (milk_and_bread 2000) initial)) =
       archiveItem 2000 (run (milk_and_bread 2000) initial)"
  using archiveItem_moves [of "run (milk_and_bread 2000) initial" 2000]
  by (simp add: run_milk_and_bread milk_def bread_def)

subsection \<open>C5: a save that collides\<close>

text \<open>
  Claim C5. If an edit is open and some active item with another id has the name of the
  edit draft up to case, \<^verbatim>\<open>saveEdit\<close> returns early with the duplicate message in the
  alert; the active list, the archived list and the new-item draft are as before, and
  the edit session still holds the draft as it was submitted.
\<close>

theorem saveEdit_collision:
  assumes "editingItem st = Some e"
    and "\<exists>i\<in>set (items st). item_id i \<noteq> item_id e
           \<and> toLowerCase (nome i) = toLowerCase (nome e)"
  shows "fst (saveEdit st) = Some OutroItemComEsteNome
   \<and> alert (snd (saveEdit st)) = Some OutroItemComEsteNome
   \<and> items (snd (saveEdit st)) = items st
   \<and> archivedItems (snd (saveEdit st)) = archivedItems st
   \<and> editingItem (snd (saveEdit st)) = Some e
   \<and> newItem (snd (saveEdit st)) = newItem st"
  using assms by (simp add: saveEdit_def showAlert_def list_ex_iff)

theorem saveEdit_collision_witness:
  "editingItem (run editing_collides initial) = Some ((bread 2000)\<lparr>nome := ''MILK''\<rparr>)
   \<and> (\<exists>i\<in>set (items (run editing_collides initial)).
         item_id i \<noteq> item_id ((bread 2000)\<lparr>nome := ''MILK''\<rparr>)
         \<and> toLowerCase (nome i) = toLowerCase (nome ((bread 2000)\<lparr>nome := ''MILK''\<rparr>)))
   \<and> fst (saveEdit (run editing_collides initial)) = Some OutroItemComEsteNome
   \<and> items (snd (saveEdit (run editing_collides initial))) = [milk, bread 2000]
   \<and> editingItem (snd (saveEdit (run editing_collides initial))) =
       Some ((bread 2000)\<lparr>nome := ''MILK''\<rparr>)"
  using saveEdit_collision
    [of "run editing_collides initial" "(bread 2000)\<lparr>nome := ''MILK''\<rparr>"]
  by (simp add: run_editing_collides milk_def bread_def lower_examples)

subsection \<open>C6: a save that commits\<close>

text \<open>
  Claim C6. If an edit is open and no active item with another id has the name of the
  edit draft up to case, \<^verbatim>\<open>saveEdit\<close> puts the whole draft in the place of what has its
  id in the active list, leaves every other item alone and closes the edit session.
  Nothing else is checked: the hypotheses say nothing of the price, the quantity or the
  name of the draft, so a draft with a price of 0 or less is committed like any other.
\<close>

theorem saveEdit_commits:
  assumes "editingItem st = Some e"
    and "\<forall>i\<in>set (items st). item_id i \<noteq> item_id e \<longrightarrow>
           toLowerCase (nome i) \<noteq> toLowerCase (nome e)"
  shows "fst (saveEdit st) = None
   \<and> items (snd (saveEdit st)) =
       map (\<lambda>i. if item_id i = item_id e then e else i) (items st)
   \<and> (\<forall>i\<in>set (items (snd (saveEdit st))). item_id i = item_id e \<longrightarrow> i = e)
   \<and> ((\<exists>i\<in>set (items st). item_id i = item_id e) \<longrightarrow>
        e \<in> set (items (snd (saveEdit st))))
   \<and> editingItem (snd (saveEdit st)) = None
   \<and> archivedItems (snd (saveEdit st)) = archivedItems st
   \<and> newItem (snd (saveEdit st)) = newItem st
   \<and> alert (snd (saveEdit st)) = alert st"
  using assms by (auto simp add: saveEdit_def list_ex_iff)

theorem saveEdit_commits_witness:
  "editingItem (run editing_price initial) =
     Some ((bread 2000)\<lparr>nome := ''Rye'', preco := - 1\<rparr>)
   \<and> list_all
         (\<lambda>i. item_id i \<noteq> item_id ((bread 2000)\<lparr>nome := ''Rye'', preco := - 1\<rparr>) \<longrightarrow>
              toLowerCase (nome i) \<noteq>
              toLowerCase (nome ((bread 2000)\<lparr>nome := ''Rye'', preco := - 1\<rparr>)))
         (items (run editing_price initial))
   \<and> fst (saveEdit (run editing_price initial)) = None
   \<and> items (snd (saveEdit (run editing_price initial))) =
       [milk, (bread 2000)\<lparr>nome := ''Rye'', preco := - 1\<rparr>]
   \<and> editingItem (snd (saveEdit (run editing_price initial))) = None"
  using saveEdit_commits
    [of "run editing_price initial" "(bread 2000)\<lparr>nome := ''Rye'', preco := - 1\<rparr>"]
  by (simp add: run_editing_price milk_def bread_def lower_examples)

subsection \<open>C7: cancelling an edit\<close>

text \<open>
  Claim C7. \<^verbatim>\<open>cancelEdit\<close> leaves the edit session idle whatever the edit draft was, checks
  nothing, and changes neither the active list, nor the archived list, nor the new-item
  draft (nor the alert or the view flag); the result does not depend on the draft that is
  discarded.
\<close>

theorem cancelEdit_discards:
  "editingItem (cancelEdit st) = None
   \<and> items (cancelEdit st) = items st
   \<and> archivedItems (cancelEdit st) = archivedItems st
   \<and> newItem (cancelEdit st) = newItem st
   \<and> alert (cancelEdit st) = alert st
   \<and> showArchived (cancelEdit st) = showArchived st
   \<and> cancelEdit (st\<lparr>editingItem := d\<rparr>) = cancelEdit st"
  by (simp add: cancelEdit_def)

subsection \<open>C8: the total\<close>

text \<open>
  Claim C8. In every state \<^verbatim>\<open>calculateTotal\<close> is the sum, over the items of the active
  list, of price times quantity; it is 0 when the active list is empty; and it does not
  depend on the archived list.
\<close>

theorem calculateTotal_sum:
  "calculateTotal st = (\<Sum>i\<leftarrow>items st. preco i * quantidade i)
   \<and> (items st = [] \<longrightarrow> calculateTotal st = 0)
   \<and> calculateTotal (st\<lparr>archivedItems := a\<rparr>) = calculateTotal st"
  by (simp add: calculateTotal_def foldl_total)

theorem calculateTotal_sum_witness:
  "items (run bread_twice initial) = []
   \<and> calculateTotal (run bread_twice initial) = 0
   \<and> archivedItems (run bread_twice initial) = [bread 1000, bread 2000]"
  using calculateTotal_sum [of "run bread_twice initial" "[]"]
  by (simp add: run_bread_twice)

subsection \<open>C9: ids\<close>

text \<open>
  Claim C9, as stated, fails: the id is the clock value, and nothing keeps two adds from
  reading the same one. Milk and bread added in the same millisecond share the id 1000.
\<close>

theorem ids_clash_same_clock:
  "\<not> distinct (all_ids (run (milk_and_bread 1000) initial))"
  by (simp add: run_milk_and_bread all_ids_def milk_def bread_def)

text \<open>
  Claim C9, amended. Along every run from the initial store in which each clock value
  read by \<^verbatim>\<open>addItem\<close> is greater than every id in the store at that moment, no two items
  of the active and archived lists together share an id, and the ids of the active list
  increase in list order, which is the order of creation. No event rewrites an id,
  whatever the clock: in one step the ids of the active list stay in place, except that
  an add appends the clock value it reads and an archive drops the archived id; the ids
  of the archived list stay in place, except that an archive appends the id it moved.
\<close>

theorem ids_unique_run:
  "(clock_rising es initial \<longrightarrow>
      distinct (all_ids (run es initial))
      \<and> sorted_wrt (<) (map item_id (items (run es initial))))
   \<and> map item_id (items (step e st)) =
       (case e of
          Archive k \<Rightarrow> filter (\<lambda>j. j \<noteq> k) (map item_id (items st))
        | _ \<Rightarrow> map item_id (items st) @
               (case reads_clock e st of Some now \<Rightarrow> [now] | None \<Rightarrow> []))
   \<and> map item_id (archivedItems (step e st)) =
       map item_id (archivedItems st) @
       (case e of
          Archive k \<Rightarrow> if k \<in> item_id ` set (items st) then [k] else []
        | _ \<Rightarrow> [])"
proof -
  have "distinct (all_ids initial)" and "sorted_wrt (<) (map item_id (items initial))"
    by (simp_all add: initial_def all_ids_def)
  then have "clock_rising es initial \<longrightarrow>
      distinct (all_ids (run es initial))
      \<and> sorted_wrt (<) (map item_id (items (run es initial)))"
    using run_ids [of initial es] by blast
  then show ?thesis
    using step_active_ids [of e st] step_archived_ids [of e st] by blast
qed

theorem ids_unique_run_witness:
  "clock_rising (milk_and_bread 2000) initial
   \<and> distinct (all_ids (run (milk_and_bread 2000) initial))
   \<and> map item_id (items (run (milk_and_bread 2000) initial)) = [1000, 2000]
   \<and> map item_id (items (step (Archive 1000) (run (milk_and_bread 2000) initial))) = [2000]
   \<and> map item_id (archivedItems (step (Archive 1000) (run (milk_and_bread 2000) initial))) =
       [1000]"
  using ids_unique_run
    [of "milk_and_bread 2000" "Archive 1000" "run (milk_and_bread 2000) initial"]
    clock_rising_milk_and_bread
  by (simp add: run_milk_and_bread milk_def bread_def)

subsection \<open>C10: saving an edit whose item is gone\<close>

text \<open>
  Claim C10. If an edit is open, no active item has the id of the edit draft, and no
  active item has its name up to case, then \<^verbatim>\<open>saveEdit\<close> returns without a message and
  changes nothing but the edit session, which it closes: the active and archived lists
  are as before, and the draft is in neither of them.
\<close>

theorem saveEdit_item_gone:
  assumes "editingItem st = Some e"
    and "\<forall>i\<in>set (items st). item_id i \<noteq> item_id e"
    and "\<forall>i\<in>set (items st). toLowerCase (nome i) \<noteq> toLowerCase (nome e)"
  shows "fst (saveEdit st) = None
   \<and> snd (saveEdit st) = st\<lparr>editingItem := None\<rparr>
   \<and> items (snd (saveEdit st)) = items st
   \<and> archivedItems (snd (saveEdit st)) = archivedItems st
   \<and> editingItem (snd (saveEdit st)) = None"
  using assms by (simp add: saveEdit_def list_ex_iff map_idI)

theorem saveEdit_item_gone_witness:
  "editingItem (run editing_archived initial) = Some ((bread 2000)\<lparr>nome := ''Rye''\<rparr>)
   \<and> list_all (\<lambda>i. item_id i \<noteq> item_id ((bread 2000)\<lparr>nome := ''Rye''\<rparr>))
         (items (run editing_archived initial))
   \<and> list_all
         (\<lambda>i. toLowerCase (nome i) \<noteq> toLowerCase (nome ((bread 2000)\<lparr>nome := ''Rye''\<rparr>)))
         (items (run editing_archived initial))
   \<and> fst (saveEdit (run editing_archived initial)) = None
   \<and> items (snd (saveEdit (run editing_archived initial))) = [milk]
   \<and> archivedItems (snd (saveEdit (run editing_archived initial))) = [bread 2000]
   \<and> editingItem (snd (saveEdit (run editing_archived initial))) = None"
  using saveEdit_item_gone
    [of "run editing_archived initial" "(bread 2000)\<lparr>nome := ''Rye''\<rparr>"]
  by (simp add: run_editing_archived milk_def bread_def lower_examples)

end
